theory Spec2Isabelle
  imports Complex_Main
begin

section \<open>Timer types (types/timer.ts)\<close>

text \<open>
  Millisecond counts are JavaScript numbers in the source. They are read here as
  integers: \<open>Date.now()\<close> yields integers, and the operations below only add, subtract
  and compare them. The progress ratio is the one place where the source divides; it is
  a rational number here.
\<close>

datatype TimerStatus = Idle | Running | Paused | Completed

record TimerState =
  remainingMs :: int
  status :: TimerStatus
  initialMs :: int

definition DEFAULT_DURATION_MS :: int where
  "DEFAULT_DURATION_MS = 25 * 60 * 1000"

definition MIN_DURATION_MS :: int where
  "MIN_DURATION_MS = 1000"

section \<open>The useTimer hook (hooks/useTimer.ts)\<close>

text \<open>
  Everything the hook keeps between renders: the React state, the three refs, and the
  part of the browser it talks to, namely the table of live \<open>setInterval\<close> handles and
  the next handle the browser will hand out. \<open>completions\<close> counts how often the call
  site \<open>onCompleteRef.current?.()\<close> has been reached.
\<close>

record hook =
  state :: TimerState
  intervalRef :: "nat option"
  startTimeRef :: int
  remainingAtStartRef :: int
  intervals :: "nat list"
  nextHandle :: nat
  completions :: nat

definition useTimer :: "int \<Rightarrow> hook" where
  "useTimer initialDuration =
     \<lparr> state = \<lparr> remainingMs = initialDuration, status = Idle, initialMs = initialDuration \<rparr>,
       intervalRef = None,
       startTimeRef = 0,
       remainingAtStartRef = 0,
       intervals = [],
       nextHandle = 1,
       completions = 0 \<rparr>"

definition useTimer_default :: hook where
  "useTimer_default = useTimer DEFAULT_DURATION_MS"

text \<open>\<open>stopInterval\<close>: clears the interval whose handle is held in \<open>intervalRef\<close>, if any.\<close>

definition stopInterval :: "hook \<Rightarrow> hook" where
  "stopInterval h =
     (case intervalRef h of
        None \<Rightarrow> h
      | Some i \<Rightarrow> h\<lparr> intervals := removeAll i (intervals h), intervalRef := None \<rparr>)"

text \<open>
  The interval callback computes \<open>newRemaining\<close> from the refs and hands \<open>setState\<close> an
  updater. The source clears the interval and calls the completion callback inside that
  updater, so both happen whenever React runs it. \<open>tick_updater\<close> is that function
  together with its side effects.
\<close>

definition tick_updater :: "int \<Rightarrow> hook \<Rightarrow> hook" where
  "tick_updater newRemaining h =
     (if newRemaining \<le> 0 then
        (let h1 = stopInterval h;
             h2 = h1\<lparr> completions := completions h1 + 1 \<rparr>
         in h2\<lparr> state := (state h2)\<lparr> remainingMs := 0, status := Completed \<rparr> \<rparr>)
      else h\<lparr> state := (state h)\<lparr> remainingMs := newRemaining \<rparr> \<rparr>)"

text \<open>
  One firing of the live interval \<open>i\<close> when the clock reads \<open>now\<close>. A cleared handle
  never fires. Every live interval reads the same two refs. React runs the updater once,
  or twice when the component is rendered under its strict mode (\<open>twice\<close>); the second
  run sees the same fields of the state it returns, and repeats the side effects.
\<close>

definition tick :: "nat \<Rightarrow> int \<Rightarrow> bool \<Rightarrow> hook \<Rightarrow> hook" where
  "tick i now twice h =
     (if i \<in> set (intervals h) then
        (let elapsed = now - startTimeRef h;
             newRemaining = max 0 (remainingAtStartRef h - elapsed);
             h1 = tick_updater newRemaining h
         in if twice then tick_updater newRemaining h1 else h1)
      else h)"

text \<open>
  \<open>start\<close>, \<open>pause\<close> and \<open>toggle\<close> are closures over the state of the render that created
  them: their guards read that snapshot \<open>snap\<close>, their updates are applied to the current
  state. \<open>now\<close> is the reading of \<open>Date.now()\<close>.
\<close>

definition start :: "TimerState \<Rightarrow> int \<Rightarrow> hook \<Rightarrow> hook" where
  "start snap now h =
     (if status snap = Running then h
      else if remainingMs snap \<le> 0 then h
      else h\<lparr> startTimeRef := now,
              remainingAtStartRef := remainingMs snap,
              state := (state h)\<lparr> status := Running \<rparr>,
              intervalRef := Some (nextHandle h),
              intervals := intervals h @ [nextHandle h],
              nextHandle := nextHandle h + 1 \<rparr>)"

definition pause :: "TimerState \<Rightarrow> hook \<Rightarrow> hook" where
  "pause snap h =
     (if status snap \<noteq> Running then h
      else (let h1 = stopInterval h
            in h1\<lparr> state := (state h1)\<lparr> status := Paused \<rparr> \<rparr>))"

definition reset :: "hook \<Rightarrow> hook" where
  "reset h =
     (let h1 = stopInterval h
      in h1\<lparr> state := (state h1)\<lparr> remainingMs := initialMs (state h1), status := Idle \<rparr> \<rparr>)"

definition toggle :: "TimerState \<Rightarrow> int \<Rightarrow> hook \<Rightarrow> hook" where
  "toggle snap now h =
     (if status snap = Running then pause snap h
      else if status snap = Idle \<or> status snap = Paused then start snap now h
      else if status snap = Completed then reset h
      else h)"

definition setDuration :: "int \<Rightarrow> hook \<Rightarrow> hook" where
  "setDuration ms h =
     (let safeDuration = max MIN_DURATION_MS ms;
          h1 = stopInterval h
      in h1\<lparr> state := \<lparr> remainingMs = safeDuration, status = Idle, initialMs = safeDuration \<rparr> \<rparr>)"


subsection \<open>Runs of the hook\<close>

text \<open>
  An event is one call of an operation, or one firing of an interval. A call of \<open>start\<close>,
  \<open>pause\<close> or \<open>toggle\<close> names the state its closure captured, which may be the state of
  an earlier render; \<open>reset\<close> and \<open>setDuration\<close> capture none. Each event carries the
  clock reading it makes. \<open>current_closures\<close> singles out the runs in which every
  closure is called while the state it captured is still the current one.
\<close>

datatype event =
    Start TimerState int
  | Pause TimerState
  | Toggle TimerState int
  | Reset
  | SetDuration int
  | Tick nat int bool

fun apply_event :: "event \<Rightarrow> hook \<Rightarrow> hook" where
  "apply_event (Start snap now) h = start snap now h"
| "apply_event (Pause snap) h = pause snap h"
| "apply_event (Toggle snap now) h = toggle snap now h"
| "apply_event Reset h = reset h"
| "apply_event (SetDuration ms) h = setDuration ms h"
| "apply_event (Tick i now twice) h = tick i now twice h"

definition run :: "event list \<Rightarrow> hook \<Rightarrow> hook" where
  "run evs h = fold apply_event evs h"

fun closure_of :: "event \<Rightarrow> TimerState option" where
  "closure_of (Start snap now) = Some snap"
| "closure_of (Pause snap) = Some snap"
| "closure_of (Toggle snap now) = Some snap"
| "closure_of e = None"

fun current_closures :: "event list \<Rightarrow> hook \<Rightarrow> bool" where
  "current_closures [] h = True"
| "current_closures (e # evs) h =
     ((closure_of e = None \<or> closure_of e = Some (state h)) \<and>
      current_closures evs (apply_event e h))"






subsection \<open>formatTime\<close>

record FormattedTime =
  hours :: int
  minutes :: int
  seconds :: int
  milliseconds :: int
  display :: string

text \<open>
  \<open>Number.prototype.toString\<close> on an integer: the decimal digits, most significant
  first, with a minus sign for a negative number.
\<close>

definition digit_char :: "nat \<Rightarrow> char" where
  "digit_char d = ''0123456789'' ! d"

fun digits :: "nat \<Rightarrow> string" where
  "digits n = (if n < 10 then [digit_char n] else digits (n div 10) @ [digit_char (n mod 10)])"

declare digits.simps [simp del]

definition toString :: "int \<Rightarrow> string" where
  "toString n = (if n < 0 then CHR ''-'' # digits (nat (- n)) else digits (nat n))"

text \<open>\<open>String.prototype.padStart\<close> with a one-character pad string.\<close>

definition padStart :: "nat \<Rightarrow> char \<Rightarrow> string \<Rightarrow> string" where
  "padStart targetLength c s = replicate (targetLength - length s) c @ s"

definition formatTime :: "int \<Rightarrow> FormattedTime" where
  "formatTime ms =
     (let safeMs = max 0 ms;
          hours = safeMs div (1000 * 60 * 60);
          minutes = (safeMs mod (1000 * 60 * 60)) div (1000 * 60);
          seconds = (safeMs mod (1000 * 60)) div 1000;
          milliseconds = safeMs mod 1000;
          display =
            (if hours > 0 then
               toString hours @ '':'' @ padStart 2 CHR ''0'' (toString minutes) @ '':'' @
               padStart 2 CHR ''0'' (toString seconds)
             else
               padStart 2 CHR ''0'' (toString minutes) @ '':'' @
               padStart 2 CHR ''0'' (toString seconds))
      in \<lparr> hours = hours, minutes = minutes, seconds = seconds,
           milliseconds = milliseconds, display = display \<rparr>)"

text \<open>Reading a decimal numeral back, to say what a displayed field denotes.\<close>

definition digit_val :: "char \<Rightarrow> nat" where
  "digit_val c = of_char c - 48"

definition decimal :: "string \<Rightarrow> nat" where
  "decimal s = foldl (\<lambda>acc c. 10 * acc + digit_val c) 0 s"

text \<open>A field zero-padded to two digits, as the specification words it.\<close>

definition two_digits :: "int \<Rightarrow> string" where
  "two_digits n = [digit_char (nat n div 10), digit_char (nat n mod 10)]"

section \<open>The click classifier (components/Timer/TimerDisplay.tsx)\<close>

text \<open>
  The component keeps the buffer \<open>clickTimestamps\<close>. Around it, the browser keeps the
  queue of pending \<open>setTimeout\<close> callbacks (their due times, oldest first), and \<open>calls\<close>
  logs every invocation of \<open>onToggle\<close> and \<open>onReset\<close> with the time at which it was made.
\<close>

datatype callback = OnToggle | OnReset

record display_state =
  clickTimestamps :: "int list"
  timeouts :: "int list"
  calls :: "(callback \<times> int) list"

definition TRIPLE_CLICK_WINDOW :: int where
  "TRIPLE_CLICK_WINDOW = 500"

definition mount :: display_state where
  "mount = \<lparr> clickTimestamps = [], timeouts = [], calls = [] \<rparr>"

definition handleClick :: "int \<Rightarrow> display_state \<Rightarrow> display_state" where
  "handleClick now d =
     (let buf = filter (\<lambda>timestamp. now - timestamp < TRIPLE_CLICK_WINDOW)
                  (clickTimestamps d @ [now])
      in if length buf \<ge> 3 then
           d\<lparr> clickTimestamps := [], calls := calls d @ [(OnReset, now)] \<rparr>
         else
           d\<lparr> clickTimestamps := buf, timeouts := timeouts d @ [now + TRIPLE_CLICK_WINDOW] \<rparr>)"

text \<open>The callback handed to \<open>setTimeout\<close>, run when the clock reads \<open>fired\<close>.\<close>

definition deferredCheck :: "int \<Rightarrow> display_state \<Rightarrow> display_state" where
  "deferredCheck fired d =
     (if length (clickTimestamps d) > 0 \<and> length (clickTimestamps d) < 3 then
        d\<lparr> calls := calls d @ [(OnToggle, fired)], clickTimestamps := [] \<rparr>
      else d)"

text \<open>
  The event loop. A pending callback runs when its delay has elapsed; callbacks that are
  due when a click arrives run before the click is handled, and once the last click has
  been handled the remaining ones run in turn.
\<close>

definition fire_due :: "int \<Rightarrow> display_state \<Rightarrow> display_state" where
  "fire_due t d =
     fold deferredCheck (takeWhile (\<lambda>due. due \<le> t) (timeouts d))
       (d\<lparr> timeouts := dropWhile (\<lambda>due. due \<le> t) (timeouts d) \<rparr>)"

definition drain :: "display_state \<Rightarrow> display_state" where
  "drain d = fold deferredCheck (timeouts d) (d\<lparr> timeouts := [] \<rparr>)"

fun clicks :: "int list \<Rightarrow> display_state \<Rightarrow> display_state" where
  "clicks [] d = drain d"
| "clicks (t # ts) d = clicks ts (handleClick t (fire_due t d))"

definition count_calls :: "callback \<Rightarrow> display_state \<Rightarrow> nat" where
  "count_calls c d = length (filter (\<lambda>(c', t). c' = c) (calls d))"

section \<open>The App (App.tsx): the display wired to the hook\<close>

text \<open>
  \<open>App\<close> builds the timer with the default duration and passes \<open>timer.toggle\<close> and
  \<open>timer.reset\<close> to the display as \<open>onToggle\<close> and \<open>onReset\<close>. The callback that
  \<open>handleClick\<close> hands to \<open>setTimeout\<close> holds the \<open>onToggle\<close> of the render in which the
  click happened, so each pending callback is kept with the state that closure captured.
\<close>

record app =
  timer :: hook
  app_clickTimestamps :: "int list"
  app_timeouts :: "(int \<times> TimerState) list"

definition App :: app where
  "App = \<lparr> timer = useTimer_default, app_clickTimestamps = [], app_timeouts = [] \<rparr>"

definition app_handleClick :: "int \<Rightarrow> app \<Rightarrow> app" where
  "app_handleClick now a =
     (let buf = filter (\<lambda>timestamp. now - timestamp < TRIPLE_CLICK_WINDOW)
                  (app_clickTimestamps a @ [now])
      in if length buf \<ge> 3 then
           a\<lparr> app_clickTimestamps := [], timer := reset (timer a) \<rparr>
         else
           a\<lparr> app_clickTimestamps := buf,
              app_timeouts :=
                app_timeouts a @ [(now + TRIPLE_CLICK_WINDOW, state (timer a))] \<rparr>)"

text \<open>The oldest pending callback runs when the clock reads \<open>fired\<close>, if it is due.\<close>

definition app_timeout :: "int \<Rightarrow> app \<Rightarrow> app" where
  "app_timeout fired a =
     (case app_timeouts a of
        [] \<Rightarrow> a
      | (due, snap) # rest \<Rightarrow>
          if fired < due then a
          else if length (app_clickTimestamps a) > 0 \<and> length (app_clickTimestamps a) < 3 then
            a\<lparr> app_timeouts := rest, timer := toggle snap fired (timer a),
               app_clickTimestamps := [] \<rparr>
          else a\<lparr> app_timeouts := rest \<rparr>)"

datatype app_event =
    AppClick int
  | AppTimeout int
  | AppTick nat int bool

fun app_step :: "app_event \<Rightarrow> app \<Rightarrow> app" where
  "app_step (AppClick now) a = app_handleClick now a"
| "app_step (AppTimeout fired) a = app_timeout fired a"
| "app_step (AppTick i now twice) a = a\<lparr> timer := tick i now twice (timer a) \<rparr>"

definition app_run :: "app_event list \<Rightarrow> app \<Rightarrow> app" where
  "app_run evs a = fold app_step evs a"

section \<open>Properties of the timer engine\<close>

lemmas op_defs =
  start_def pause_def reset_def toggle_def setDuration_def tick_def tick_updater_def
  stopInterval_def

lemmas app_defs = app_run_def App_def app_handleClick_def app_timeout_def
  TRIPLE_CLICK_WINDOW_def useTimer_default_def useTimer_def DEFAULT_DURATION_MS_def

subsection \<open>Invariants of a run\<close>


lemma run_append: "run (xs @ ys) h = run ys (run xs h)"
  by (simp add: run_def)

lemma current_closures_append:
  "current_closures (xs @ ys) h \<longleftrightarrow> current_closures xs h \<and> current_closures ys (run xs h)"
  by (induction xs arbitrary: h) (simp_all add: run_def)













subsection \<open>What each operation does for the closure it is called from\<close>

lemma start_guard:
  "status snap = Running \<or> remainingMs snap \<le> 0 \<Longrightarrow> start snap now h = h"
  by (auto simp: start_def)

lemma toggle_by_closure:
  "toggle snap now h =
     (case status snap of
        Running \<Rightarrow> pause snap h
      | Idle \<Rightarrow> start snap now h
      | Paused \<Rightarrow> start snap now h
      | Completed \<Rightarrow> reset h)"
  by (simp add: toggle_def split: TimerStatus.splits)

lemma setDuration_state:
  "state (setDuration ms h) =
     \<lparr> remainingMs = max 1000 ms, status = Idle, initialMs = max 1000 ms \<rparr> \<and>
   intervalRef (setDuration ms h) = None \<and>
   intervals (setDuration ms h) =
     (case intervalRef h of None \<Rightarrow> intervals h | Some i \<Rightarrow> removeAll i (intervals h))"
  by (auto simp: setDuration_def stopInterval_def MIN_DURATION_MS_def Let_def
           split: option.splits)

lemma tick_once:
  "i \<in> set (intervals h) \<Longrightarrow>
     tick i now False h =
       tick_updater (max 0 (remainingAtStartRef h - (now - startTimeRef h))) h"
  by (simp add: tick_def Let_def)

subsection \<open>The snapshot invariant\<close>




subsection \<open>progress\<close>




subsection \<open>Who writes initialMs\<close>

text \<open>
  C10. \<open>start\<close>, \<open>pause\<close>, \<open>reset\<close>, \<open>toggle\<close> and the interval tick never change
  \<open>initialMs\<close>: an event that changes it is a \<open>setDuration\<close>, and \<open>setDuration\<close> does
  change it.
\<close>

theorem initialMs_frame:
  "initialMs (state (start snap now h)) = initialMs (state h) \<and>
   initialMs (state (pause snap h)) = initialMs (state h) \<and>
   initialMs (state (reset h)) = initialMs (state h) \<and>
   initialMs (state (tick i now twice h)) = initialMs (state h) \<and>
   initialMs (state (toggle snap now h)) = initialMs (state h) \<and>
   (initialMs (state (apply_event e h)) \<noteq> initialMs (state h) \<longrightarrow> (\<exists>ms. e = SetDuration ms)) \<and>
   initialMs (state (setDuration 5000 useTimer_default)) \<noteq> initialMs (state useTimer_default)"
proof -
  have ops: "initialMs (state (start snap now h)) = initialMs (state h)"
    "initialMs (state (pause snap h)) = initialMs (state h)"
    "initialMs (state (reset h)) = initialMs (state h)"
    "initialMs (state (tick i now twice h)) = initialMs (state h)"
    "initialMs (state (toggle snap now h)) = initialMs (state h)"
    for snap now h i twice
    by (simp_all add: op_defs Let_def split: option.splits)
  have ev: "\<exists>ms. e = SetDuration ms"
    if "initialMs (state (apply_event e h)) \<noteq> initialMs (state h)"
    using that by (cases e) (simp_all add: ops)
  have sd: "initialMs (state (setDuration 5000 useTimer_default)) \<noteq>
            initialMs (state useTimer_default)"
    by (simp add: setDuration_def stopInterval_def useTimer_default_def useTimer_def
          DEFAULT_DURATION_MS_def MIN_DURATION_MS_def)
  from ops ev sd show ?thesis by blast
qed

theorem initialMs_frame_witness:
  "initialMs (state (apply_event (SetDuration 5000) useTimer_default)) \<noteq>
     initialMs (state useTimer_default) \<and>
   (\<exists>ms. SetDuration 5000 = SetDuration ms) \<and>
   initialMs (state (run [Start (state useTimer_default) 0, Tick 1 16 True,
                          Pause (state useTimer_default), Toggle (state useTimer_default) 40,
                          Reset] useTimer_default)) =
     initialMs (state useTimer_default)"
proof -
  have "initialMs (state (run [Start (state useTimer_default) 0, Tick 1 16 True,
                          Pause (state useTimer_default), Toggle (state useTimer_default) 40,
                          Reset] useTimer_default)) =
     initialMs (state useTimer_default)"
    by (simp add: run_def initialMs_frame)
  with initialMs_frame[where e = "SetDuration 5000" and h = useTimer_default]
  show ?thesis by simp
qed

section \<open>The timer in the App: calls from closures of an earlier render\<close>

text \<open>
  The deferred check of a click calls the \<open>onToggle\<close> of the render in which the click
  happened. Three clicks at 0, 400 and 600 on the fresh App make two deferred checks
  toggle, at 500 and at 900, and both hold the closure of the idle timer: the click at
  400 was handled before the timer started.
\<close>

subsection \<open>A second start while running\<close>

text \<open>
  C7 fails on the code. After the toggle at 500 the timer is running with baseline time
  500, and the tick at 800 shows 1499700. The toggle at 900 calls \<open>start\<close> from the idle
  closure, whose guard passes: the baseline time becomes 900, the baseline remaining time
  goes back to 1500000, a second interval is started, and the next tick shows 1499984.
\<close>

theorem start_while_running_resets_baseline:
  "(let before = app_run [AppClick 0, AppClick 400, AppTimeout 500, AppClick 600,
                          AppTick 1 800 False] App;
        after = app_step (AppTimeout 900) before
    in state (timer before) =
         \<lparr> remainingMs = 1499700, status = Running, initialMs = 1500000 \<rparr> \<and>
       startTimeRef (timer before) = 500 \<and>
       remainingAtStartRef (timer before) = 1500000 \<and>
       intervals (timer before) = [1] \<and>
       hd (app_timeouts before) = (900, state useTimer_default) \<and>
       status (state (timer after)) = Running \<and>
       startTimeRef (timer after) = 900 \<and>
       remainingAtStartRef (timer after) = 1500000 \<and>
       intervals (timer after) = [1, 2] \<and>
       intervalRef (timer after) = Some 2 \<and>
       remainingMs (state (tick 1 916 False (timer after))) = 1499984)"
  by (simp add: app_defs op_defs Let_def)

subsection \<open>Completion with a leaked interval\<close>

text \<open>
  C3 fails on the code. After the three clicks two intervals are live and the hook
  holds the handle of the second. The tick that reaches zero clears that one only; the
  other keeps firing, and every firing calls the completion callback again. Apart from
  that, with a single interval, the completion callback is called twice by one tick when
  React runs the updater twice.
\<close>

theorem completion_repeats:
  "(let leaked = timer (app_run [AppClick 0, AppClick 400, AppTimeout 500, AppClick 600,
                                 AppTimeout 900, AppTimeout 1100] App);
        t1 = tick 1 1500900 False leaked;
        t2 = tick 1 1500916 False t1;
        t3 = tick 1 1500932 False t2
    in intervals leaked = [1, 2] \<and> intervalRef leaked = Some 2 \<and>
       state t1 = \<lparr> remainingMs = 0, status = Completed, initialMs = 1500000 \<rparr> \<and>
       intervals t1 = [1] \<and> completions t1 = 1 \<and>
       intervals t2 = [1] \<and> completions t2 = 2 \<and>
       intervals t3 = [1] \<and> completions t3 = 3) \<and>
   completions (tick 1 1000 True (start (state (useTimer 1000)) 0 (useTimer 1000))) = 2"
  by (simp add: app_defs op_defs Let_def)

subsection \<open>setDuration with a leaked interval\<close>

text \<open>
  C4 fails on the code. \<open>setDuration\<close> always leaves the state the claim says, but it
  clears only the interval whose handle the hook holds. With the two intervals left by
  the three clicks, the first stays live after \<open>setDuration 2000\<close>, and its next tick
  stores 1499900 in the idle timer of 2000.
\<close>

theorem setDuration_leaves_leaked_interval:
  "(let leaked = timer (app_run [AppClick 0, AppClick 400, AppTimeout 500, AppClick 600,
                                 AppTimeout 900, AppTimeout 1100] App);
        h = setDuration 2000 leaked
    in intervals leaked = [1, 2] \<and>
       state h = \<lparr> remainingMs = 2000, status = Idle, initialMs = 2000 \<rparr> \<and>
       intervalRef h = None \<and>
       intervals h = [1] \<and>
       state (tick 1 1000 False h) =
         \<lparr> remainingMs = 1499900, status = Idle, initialMs = 2000 \<rparr>)"
  by (simp add: app_defs op_defs MIN_DURATION_MS_def Let_def)

subsection \<open>toggle on a completed timer\<close>

text \<open>
  C5 fails on the code. A click at 1500100, while the timer is running, schedules a check
  for 1500600 that holds the closure of the running timer. The tick at 1500500 completes
  the countdown. The check then toggles by the status in its closure: it pauses, and the
  completed timer is left paused with \<open>remainingMs = 0\<close> instead of idle with
  \<open>remainingMs = initialMs\<close>. From there a further click changes nothing, because
  \<open>start\<close> returns at \<open>remainingMs \<le> 0\<close>.
\<close>

theorem toggle_pauses_completed_timer:
  "(let a = app_run [AppClick 0, AppTimeout 500, AppTick 1 1500000 False, AppClick 1500100,
                     AppTick 1 1500500 False] App;
        a' = app_step (AppTimeout 1500600) a;
        a'' = app_run [AppClick 1502000, AppTimeout 1502500] a'
    in state (timer a) = \<lparr> remainingMs = 0, status = Completed, initialMs = 1500000 \<rparr> \<and>
       app_timeouts a =
         [(1500600, \<lparr> remainingMs = 500, status = Running, initialMs = 1500000 \<rparr>)] \<and>
       state (timer a') = \<lparr> remainingMs = 0, status = Paused, initialMs = 1500000 \<rparr> \<and>
       state (timer a') \<noteq> state (reset (timer a)) \<and>
       timer a'' = timer a')"
  by (simp add: app_defs op_defs Let_def)

section \<open>Properties of formatTime\<close>

lemma digit_cases:
  "d < 10 \<Longrightarrow>
     d = 0 \<or> d = 1 \<or> d = 2 \<or> d = 3 \<or> d = 4 \<or> d = 5 \<or> d = 6 \<or> d = 7 \<or> d = 8 \<or> d = (9::nat)"
  by arith

lemma digit_val_digit_char: "d < 10 \<Longrightarrow> digit_val (digit_char d) = d"
  using digit_cases[of d] by (auto simp: digit_val_def digit_char_def)

lemma digit_char_zero: "d < 10 \<Longrightarrow> digit_char d = CHR ''0'' \<longleftrightarrow> d = 0"
  using digit_cases[of d] by (auto simp: digit_char_def)

lemma digits_small: "n < 10 \<Longrightarrow> digits n = [digit_char n]"
  by (simp add: digits.simps[of n])

lemma digits_step: "\<not> n < 10 \<Longrightarrow> digits n = digits (n div 10) @ [digit_char (n mod 10)]"
  by (simp add: digits.simps[of n])

lemma digits_nonempty: "digits n \<noteq> []"
  by (cases "n < 10") (simp_all add: digits_small digits_step)

lemma decimal_snoc: "decimal (s @ [c]) = 10 * decimal s + digit_val c"
  by (simp add: decimal_def)

lemma decimal_digits: "decimal (digits n) = n"
proof (induction n rule: digits.induct)
  case (1 n)
  show ?case
  proof (cases "n < 10")
    case True
    then show ?thesis
      by (simp add: digits_small decimal_def digit_val_digit_char)
  next
    case False
    with 1 have "decimal (digits (n div 10)) = n div 10" by simp
    with False show ?thesis
      by (simp add: digits_step decimal_snoc digit_val_digit_char)
  qed
qed

lemma hd_digits: "0 < n \<Longrightarrow> hd (digits n) \<noteq> CHR ''0''"
proof (induction n rule: digits.induct)
  case (1 n)
  show ?case
  proof (cases "n < 10")
    case True
    with 1(2) show ?thesis
      by (simp add: digits_small digit_char_zero)
  next
    case False
    then have "0 < n div 10" by simp
    with 1(1) False have "hd (digits (n div 10)) \<noteq> CHR ''0''" by simp
    with False show ?thesis
      by (simp add: digits_step digits_nonempty)
  qed
qed

lemma pad_two: "0 \<le> n \<Longrightarrow> n < 100 \<Longrightarrow> padStart 2 CHR ''0'' (toString n) = two_digits n"
proof (cases "n < 10")
  case True
  assume "0 \<le> n"
  with True have "nat n < 10" by simp
  moreover from this have "digit_char (nat n div 10) = CHR ''0''" by (simp add: digit_char_def)
  ultimately show ?thesis using \<open>0 \<le> n\<close>
    by (simp add: padStart_def toString_def two_digits_def digits_small)
next
  case False
  assume "0 \<le> n" "n < 100"
  with False have "\<not> nat n < 10" "nat n div 10 < 10" by simp_all
  then show ?thesis using \<open>0 \<le> n\<close>
    by (simp add: padStart_def toString_def two_digits_def digits_step digits_small)
qed


lemma ms_decomposition:
  "0 \<le> (ms::int) \<Longrightarrow>
     (ms div 3600000) * 3600000 + ((ms mod 3600000) div 60000) * 60000 +
     ((ms mod 60000) div 1000) * 1000 + ms mod 1000 = ms"
proof -
  have a: "ms mod 3600000 mod 60000 = ms mod 60000"
    by (rule mod_mod_cancel) simp
  have b: "ms mod 60000 mod 1000 = ms mod 1000"
    by (rule mod_mod_cancel) simp
  have "ms = (ms div 3600000) * 3600000 + ms mod 3600000" by simp
  also have "ms mod 3600000 = ((ms mod 3600000) div 60000) * 60000 + ms mod 3600000 mod 60000"
    by simp
  also have "ms mod 3600000 mod 60000 = ms mod 60000" by (rule a)
  also have "ms mod 60000 = ((ms mod 60000) div 1000) * 1000 + ms mod 60000 mod 1000" by simp
  also have "ms mod 60000 mod 1000 = ms mod 1000" by (rule b)
  finally show ?thesis by simp
qed

text \<open>
  C9. For a non-negative millisecond count, \<open>formatTime\<close> splits it into hours, minutes
  below 60, seconds below 60 and milliseconds below 1000 that add up to it. The display
  is minutes and seconds, each zero-padded to two digits, when the hours are zero, and is
  preceded by the hours otherwise, written as a plain decimal numeral without padding.
  \<open>formatTime 0\<close> displays \<open>00:00\<close> and \<open>formatTime 3661000\<close> displays \<open>1:01:01\<close>.
\<close>

theorem formatTime_spec:
  assumes "0 \<le> ms"
  shows
    "(let f = formatTime ms in
        hours f * 3600000 + minutes f * 60000 + seconds f * 1000 + milliseconds f = ms \<and>
        0 \<le> hours f \<and> 0 \<le> minutes f \<and> minutes f < 60 \<and> 0 \<le> seconds f \<and> seconds f < 60 \<and>
        0 \<le> milliseconds f \<and> milliseconds f < 1000 \<and>
        (hours f = 0 \<longrightarrow>
           display f = two_digits (minutes f) @ '':'' @ two_digits (seconds f)) \<and>
        (hours f \<noteq> 0 \<longrightarrow>
           display f = toString (hours f) @ '':'' @ two_digits (minutes f) @ '':'' @
                       two_digits (seconds f) \<and>
           hd (toString (hours f)) \<noteq> CHR ''0'' \<and>
           int (decimal (toString (hours f))) = hours f)) \<and>
     display (formatTime 0) = ''00:00'' \<and>
     display (formatTime 3661000) = ''1:01:01''"
proof -
  define hh where "hh = ms div 3600000"
  define mm where "mm = (ms mod 3600000) div 60000"
  define ss where "ss = (ms mod 60000) div 1000"
  define ml where "ml = ms mod 1000"
  have rng: "0 \<le> hh" "0 \<le> mm" "mm < 60" "0 \<le> ss" "ss < 60" "0 \<le> ml" "ml < 1000"
    using assms unfolding hh_def mm_def ss_def ml_def by (simp_all add: pos_imp_zdiv_nonneg_iff)
  have sum: "hh * 3600000 + mm * 60000 + ss * 1000 + ml = ms"
    unfolding hh_def mm_def ss_def ml_def using assms by (rule ms_decomposition)
  have pm: "padStart 2 CHR ''0'' (toString mm) = two_digits mm"
    and ps: "padStart 2 CHR ''0'' (toString ss) = two_digits ss"
    using rng by (simp_all add: pad_two)
  have "formatTime ms =
      \<lparr> hours = hh, minutes = mm, seconds = ss, milliseconds = ml,
        display =
          (if hh > 0 then
             toString hh @ '':'' @ padStart 2 CHR ''0'' (toString mm) @ '':'' @
             padStart 2 CHR ''0'' (toString ss)
           else
             padStart 2 CHR ''0'' (toString mm) @ '':'' @
             padStart 2 CHR ''0'' (toString ss)) \<rparr>"
    unfolding formatTime_def Let_def hh_def mm_def ss_def ml_def using assms by (simp add: max_def)
  then have f: "formatTime ms =
      \<lparr> hours = hh, minutes = mm, seconds = ss, milliseconds = ml,
        display = (if hh > 0 then toString hh @ '':'' @ two_digits mm @ '':'' @ two_digits ss
                   else two_digits mm @ '':'' @ two_digits ss) \<rparr>"
    by (simp only: pm ps)
  have hrs: "hd (toString hh) \<noteq> CHR ''0'' \<and> int (decimal (toString hh)) = hh" if "hh \<noteq> 0"
    using that rng(1) by (simp add: toString_def hd_digits decimal_digits)
  have ex: "display (formatTime 0) = ''00:00''" "display (formatTime 3661000) = ''1:01:01''"
    by (simp_all add: formatTime_def padStart_def toString_def digit_char_def digits.simps)
  have main: "(let f = formatTime ms in
        hours f * 3600000 + minutes f * 60000 + seconds f * 1000 + milliseconds f = ms \<and>
        0 \<le> hours f \<and> 0 \<le> minutes f \<and> minutes f < 60 \<and> 0 \<le> seconds f \<and> seconds f < 60 \<and>
        0 \<le> milliseconds f \<and> milliseconds f < 1000 \<and>
        (hours f = 0 \<longrightarrow>
           display f = two_digits (minutes f) @ '':'' @ two_digits (seconds f)) \<and>
        (hours f \<noteq> 0 \<longrightarrow>
           display f = toString (hours f) @ '':'' @ two_digits (minutes f) @ '':'' @
                       two_digits (seconds f) \<and>
           hd (toString (hours f)) \<noteq> CHR ''0'' \<and>
           int (decimal (toString (hours f))) = hours f))"
    unfolding f Let_def using rng sum hrs by simp
  with ex show ?thesis by blast
qed

theorem formatTime_spec_witness:
  "(0::int) \<le> 3661000 \<and>
   formatTime 3661000 =
     \<lparr> hours = 1, minutes = 1, seconds = 1, milliseconds = 0, display = ''1:01:01'' \<rparr> \<and>
   display (formatTime 3661000) =
     toString 1 @ '':'' @ two_digits 1 @ '':'' @ two_digits 1 \<and>
   display (formatTime 754321) = ''12:34'' \<and>
   display (formatTime 754321) = two_digits 12 @ '':'' @ two_digits 34"
proof -
  have z: "(0::int) \<le> 3661000" "(0::int) \<le> 754321" by simp_all
  have v: "formatTime 3661000 =
     \<lparr> hours = 1, minutes = 1, seconds = 1, milliseconds = 0, display = ''1:01:01'' \<rparr>"
    "formatTime 754321 =
     \<lparr> hours = 0, minutes = 12, seconds = 34, milliseconds = 321, display = ''12:34'' \<rparr>"
    by (simp_all add: formatTime_def padStart_def toString_def digit_char_def digits.simps)
  from formatTime_spec[OF z(1)] formatTime_spec[OF z(2)] z v
  show ?thesis by (simp add: Let_def)
qed

section \<open>Properties of the click classifier\<close>

lemma handleClick_burst:
  assumes "\<forall>b \<in> set (clickTimestamps d). t - b < TRIPLE_CLICK_WINDOW"
    and "length (clickTimestamps d) < 3"
  shows "handleClick t d =
     (if length (clickTimestamps d) = 2
      then d\<lparr> clickTimestamps := [], calls := calls d @ [(OnReset, t)] \<rparr>
      else d\<lparr> clickTimestamps := clickTimestamps d @ [t],
              timeouts := timeouts d @ [t + TRIPLE_CLICK_WINDOW] \<rparr>)"
proof -
  have "filter (\<lambda>timestamp. t - timestamp < TRIPLE_CLICK_WINDOW) (clickTimestamps d @ [t]) =
        clickTimestamps d @ [t]"
    using assms(1) by (simp add: TRIPLE_CLICK_WINDOW_def)
  with assms(2) show ?thesis
    by (auto simp: handleClick_def Let_def)
qed

lemma fire_due_none:
  assumes "\<forall>due \<in> set (timeouts d). t < due"
  shows "fire_due t d = d"
proof -
  have "takeWhile (\<lambda>due. due \<le> t) (timeouts d) = []"
    using assms by (cases "timeouts d") auto
  moreover have "dropWhile (\<lambda>due. due \<le> t) (timeouts d) = timeouts d"
    using assms by (cases "timeouts d") auto
  ultimately show ?thesis by (simp add: fire_due_def)
qed

lemma deferredCheck_noop:
  "clickTimestamps d = [] \<or> 3 \<le> length (clickTimestamps d) \<Longrightarrow> deferredCheck t d = d"
  by (auto simp: deferredCheck_def)

lemma fold_deferredCheck_noop:
  "clickTimestamps d = [] \<or> 3 \<le> length (clickTimestamps d) \<Longrightarrow> fold deferredCheck ts d = d"
  by (induction ts) (simp_all add: deferredCheck_noop)

lemma drain_calls:
  "calls (drain d) = calls d @
     (if timeouts d \<noteq> [] \<and> 0 < length (clickTimestamps d) \<and> length (clickTimestamps d) < 3
      then [(OnToggle, hd (timeouts d))] else [])"
proof (cases "0 < length (clickTimestamps d) \<and> length (clickTimestamps d) < 3")
  case True
  show ?thesis
  proof (cases "timeouts d")
    case Nil
    then show ?thesis by (simp add: drain_def)
  next
    case (Cons due rest)
    let ?d = "d\<lparr> timeouts := [], calls := calls d @ [(OnToggle, due)], clickTimestamps := [] \<rparr>"
    from True have "deferredCheck due (d\<lparr> timeouts := [] \<rparr>) = ?d"
      by (simp add: deferredCheck_def)
    moreover have "fold deferredCheck rest ?d = ?d"
      by (rule fold_deferredCheck_noop) simp
    ultimately have "drain d = ?d"
      by (simp add: drain_def Cons)
    with Cons True show ?thesis by simp
  qed
next
  case False
  then have "clickTimestamps (d\<lparr> timeouts := [] \<rparr>) = [] \<or>
             3 \<le> length (clickTimestamps (d\<lparr> timeouts := [] \<rparr>))"
    by auto
  then have "drain d = d\<lparr> timeouts := [] \<rparr>"
    unfolding drain_def by (rule fold_deferredCheck_noop)
  with False show ?thesis by auto
qed

lemma clicks_burst:
  assumes "length (clickTimestamps d) < 3"
    and "clickTimestamps d \<noteq> [] \<longrightarrow> timeouts d \<noteq> []"
    and "\<forall>t \<in> set ts. (\<forall>due \<in> set (timeouts d). t < due) \<and>
                       (\<forall>b \<in> set (clickTimestamps d). t - b < TRIPLE_CLICK_WINDOW)"
    and "\<forall>t \<in> set ts. \<forall>t' \<in> set ts. t' - t < TRIPLE_CLICK_WINDOW"
  shows "count_calls OnReset (clicks ts d) =
           count_calls OnReset d + (length (clickTimestamps d) + length ts) div 3 \<and>
         count_calls OnToggle (clicks ts d) =
           count_calls OnToggle d +
           (if (length (clickTimestamps d) + length ts) mod 3 = 0 then 0 else 1)"
  using assms
proof (induction ts arbitrary: d)
  case Nil
  then show ?case
    by (auto simp: count_calls_def drain_calls)
next
  case (Cons t ts)
  let ?d = "handleClick t d"
  from Cons.prems(3) have fd: "fire_due t d = d"
    by (intro fire_due_none) simp
  from Cons.prems(3) have keep: "\<forall>b \<in> set (clickTimestamps d). t - b < TRIPLE_CLICK_WINDOW"
    by simp
  note hc = handleClick_burst[OF keep Cons.prems(1)]
  have 1: "length (clickTimestamps ?d) < 3"
    using Cons.prems(1) by (auto simp: hc)
  have 2: "clickTimestamps ?d \<noteq> [] \<longrightarrow> timeouts ?d \<noteq> []"
    by (auto simp: hc)
  have 3: "\<forall>t' \<in> set ts. (\<forall>due \<in> set (timeouts ?d). t' < due) \<and>
              (\<forall>b \<in> set (clickTimestamps ?d). t' - b < TRIPLE_CLICK_WINDOW)"
    using Cons.prems(3,4) by (auto simp: hc)
  have 4: "\<forall>t \<in> set ts. \<forall>t' \<in> set ts. t' - t < TRIPLE_CLICK_WINDOW"
    using Cons.prems(4) by simp
  note IH = Cons.IH[OF 1 2 3 4]
  show ?case
  proof (cases "length (clickTimestamps d) = 2")
    case True
    then have "count_calls OnReset ?d = count_calls OnReset d + 1"
      "count_calls OnToggle ?d = count_calls OnToggle d" "length (clickTimestamps ?d) = 0"
      by (simp_all add: hc count_calls_def)
    with IH True show ?thesis
      by (simp add: fd)
  next
    case False
    then have "count_calls OnReset ?d = count_calls OnReset d"
      "count_calls OnToggle ?d = count_calls OnToggle d"
      "length (clickTimestamps ?d) = length (clickTimestamps d) + 1"
      by (simp_all add: hc count_calls_def)
    with IH False show ?thesis
      by (simp add: fd)
  qed
qed

lemma sorted_within:
  assumes "sorted (ts :: int list)" "t \<in> set ts"
  shows "hd ts \<le> t \<and> t \<le> last ts"
  using assms
  by (induction ts) (auto split: if_splits)

text \<open>
  C1, as stated, fails for bursts of more than three clicks. The buffer is cleared on
  the third click, so the clicks after it are counted afresh: the fourth click of a burst
  is toggled when the first pending check runs, and the sixth click of a burst resets a
  second time.
\<close>

theorem burst_counterexample:
  "sorted [0, 100, 200, 300 :: int] \<and>
   last [0, 100, 200, 300] - hd [0, 100, 200, 300] < TRIPLE_CLICK_WINDOW \<and>
   calls (clicks [0, 100, 200, 300] mount) = [(OnReset, 200), (OnToggle, 500)] \<and>
   count_calls OnToggle (clicks [0, 100, 200, 300] mount) \<noteq> 0 \<and>
   sorted [0, 80, 160, 240, 320, 400 :: int] \<and>
   last [0, 80, 160, 240, 320, 400] - hd [0, 80, 160, 240, 320, 400] < TRIPLE_CLICK_WINDOW \<and>
   calls (clicks [0, 80, 160, 240, 320, 400] mount) = [(OnReset, 160), (OnReset, 400)] \<and>
   count_calls OnReset (clicks [0, 80, 160, 240, 320, 400] mount) \<noteq> 1"
  by (simp add: mount_def fire_due_def handleClick_def deferredCheck_def drain_def
        count_calls_def TRIPLE_CLICK_WINDOW_def Let_def)

text \<open>
  C1, amended. For every burst of \<open>n \<ge> 3\<close> clicks arriving within the 500-unit window,
  the classifier invokes reset once for every three clicks, \<open>n div 3\<close> times in all,
  and invokes toggle once when \<open>n\<close> is not a multiple of 3 and never otherwise. In
  particular three clicks yield exactly one reset and no toggle.
\<close>

theorem burst_counts:
  assumes "sorted ts" and "3 \<le> length ts" and "last ts - hd ts < TRIPLE_CLICK_WINDOW"
  shows "count_calls OnReset (clicks ts mount) = length ts div 3 \<and>
         count_calls OnToggle (clicks ts mount) = (if length ts mod 3 = 0 then 0 else 1)"
proof -
  have pw: "\<forall>t \<in> set ts. \<forall>t' \<in> set ts. t' - t < TRIPLE_CLICK_WINDOW"
  proof (intro ballI)
    fix t t' assume "t \<in> set ts" "t' \<in> set ts"
    with sorted_within[OF assms(1)] have "hd ts \<le> t" "t' \<le> last ts" by blast+
    with assms(3) show "t' - t < TRIPLE_CLICK_WINDOW" by simp
  qed
  have "count_calls OnReset (clicks ts mount) =
           count_calls OnReset mount + (length (clickTimestamps mount) + length ts) div 3 \<and>
         count_calls OnToggle (clicks ts mount) =
           count_calls OnToggle mount +
           (if (length (clickTimestamps mount) + length ts) mod 3 = 0 then 0 else 1)"
    by (rule clicks_burst) (simp_all add: mount_def pw)
  then show ?thesis
    by (simp add: mount_def count_calls_def)
qed

theorem burst_counts_witness:
  "sorted [0, 100, 200 :: int] \<and> 3 \<le> length [0, 100, 200 :: int] \<and>
   last [0, 100, 200] - hd [0, 100, 200] < TRIPLE_CLICK_WINDOW \<and>
   count_calls OnReset (clicks [0, 100, 200] mount) = 1 \<and>
   count_calls OnToggle (clicks [0, 100, 200] mount) = 0"
proof -
  have h: "sorted [0, 100, 200 :: int]" "3 \<le> length [0, 100, 200 :: int]"
    "last [0, 100, 200] - hd [0, 100, 200] < TRIPLE_CLICK_WINDOW"
    by (simp_all add: TRIPLE_CLICK_WINDOW_def)
  from burst_counts[OF h] h show ?thesis by simp
qed

text \<open>
  C6. Two clicks, the second less than 500 time units after the first, and no third
  click: the classifier invokes toggle exactly once, when the check scheduled by the first
  click runs a full window after it (and so after the second click), and never invokes
  reset.
\<close>

theorem double_click:
  assumes "t1 \<le> t2" and "t2 - t1 < TRIPLE_CLICK_WINDOW"
  shows "calls (clicks [t1, t2] mount) = [(OnToggle, t1 + TRIPLE_CLICK_WINDOW)] \<and>
         count_calls OnToggle (clicks [t1, t2] mount) = 1 \<and>
         count_calls OnReset (clicks [t1, t2] mount) = 0 \<and>
         t2 < t1 + TRIPLE_CLICK_WINDOW"
  using assms
  by (simp add: mount_def fire_due_def handleClick_def deferredCheck_def drain_def
        count_calls_def TRIPLE_CLICK_WINDOW_def Let_def)

theorem double_click_witness:
  "(0::int) \<le> 499 \<and> 499 - 0 < TRIPLE_CLICK_WINDOW \<and>
   calls (clicks [0, 499] mount) = [(OnToggle, 500)] \<and>
   count_calls OnToggle (clicks [0, 499] mount) = 1 \<and>
   count_calls OnReset (clicks [0, 499] mount) = 0"
proof -
  have h: "(0::int) \<le> 499" "499 - 0 < TRIPLE_CLICK_WINDOW"
    by (simp_all add: TRIPLE_CLICK_WINDOW_def)
  from double_click[OF h] h show ?thesis by (simp add: TRIPLE_CLICK_WINDOW_def)
qed

end
